theory Spec2Isabelle
  imports Main
begin

section \<open>Python strings\<close>

text \<open>
  A Python \<open>str\<close> is a sequence of Unicode code points, and \<open>len\<close>, slicing,
  \<open>strip\<close> and \<open>splitlines\<close> all count code points. A string is therefore a
  list of code points (natural numbers); \<open>py\<close> turns an ASCII literal of the
  source into that representation.
\<close>

type_synonym pystr = "nat list"

definition py :: "string \<Rightarrow> pystr" where
  "py s = map of_char s"

text \<open>
  \<open>str.isspace\<close> on one code point (CPython's \<open>_PyUnicode_IsWhitespace\<close>):
  U+0009..U+000D, U+001C..U+001F, U+0020, U+0085, U+00A0, U+1680, U+2000..U+200A,
  U+2028, U+2029, U+202F, U+205F, U+3000.
\<close>

definition isspace :: "nat \<Rightarrow> bool" where
  "isspace c \<longleftrightarrow>
     (9 \<le> c \<and> c \<le> 13) \<or> (28 \<le> c \<and> c \<le> 31) \<or> c = 32 \<or> c = 133 \<or> c = 160 \<or>
     c = 5760 \<or> (8192 \<le> c \<and> c \<le> 8202) \<or> c = 8232 \<or> c = 8233 \<or> c = 8239 \<or>
     c = 8287 \<or> c = 12288"

text \<open>
  The line boundaries of \<open>str.splitlines\<close> (CPython's \<open>_PyUnicode_IsLinebreak\<close>):
  U+000A..U+000D, U+001C..U+001E, U+0085, U+2028, U+2029.
\<close>

definition is_linebreak :: "nat \<Rightarrow> bool" where
  "is_linebreak c \<longleftrightarrow>
     (10 \<le> c \<and> c \<le> 13) \<or> (28 \<le> c \<and> c \<le> 30) \<or> c = 133 \<or> c = 8232 \<or> c = 8233"

definition lstrip :: "pystr \<Rightarrow> pystr" where
  "lstrip s = dropWhile isspace s"

definition rstrip :: "pystr \<Rightarrow> pystr" where
  "rstrip s = rev (dropWhile isspace (rev s))"

definition strip :: "pystr \<Rightarrow> pystr" where
  "strip s = rstrip (lstrip s)"

text \<open>
  \<open>str.splitlines()\<close> without \<open>keepends\<close>: each line runs up to the next line
  boundary, the boundary is dropped (\<open>\r\n\<close> counts as one boundary), and no empty
  line is produced after a final boundary.
\<close>

fun drop_eol :: "pystr \<Rightarrow> pystr" where
  "drop_eol [] = []"
| "drop_eol [c] = []"
| "drop_eol (c # d # cs) = (if c = 13 \<and> d = 10 then cs else d # cs)"

function splitlines :: "pystr \<Rightarrow> pystr list" where
  "splitlines s =
     (if s = [] then []
      else takeWhile (\<lambda>c. \<not> is_linebreak c) s
           # splitlines (drop_eol (dropWhile (\<lambda>c. \<not> is_linebreak c) s)))"
  by pat_completeness auto
termination
proof (relation "measure length")
  show "wf (measure length)" by simp
next
  fix s :: pystr
  assume ne: "s \<noteq> []"
  let ?r = "dropWhile (\<lambda>c. \<not> is_linebreak c) s"
  have shorter: "length (drop_eol t) \<le> length t - 1" for t
    by (induction t rule: drop_eol.induct) auto
  have "length (drop_eol ?r) \<le> length ?r - 1" by (rule shorter)
  moreover have "length ?r \<le> length s" by (rule length_dropWhile_le)
  moreover have "0 < length s" using ne by simp
  ultimately have "length (drop_eol ?r) < length s" by arith
  then show "(drop_eol ?r, s) \<in> measure length" by simp
qed

declare splitlines.simps [simp del]

text \<open>\<open>sep.join(xs)\<close> for a list of strings.\<close>

fun join :: "pystr \<Rightarrow> pystr list \<Rightarrow> pystr" where
  "join sep [] = []"
| "join sep [x] = x"
| "join sep (x # y # ys) = x @ sep @ join sep (y # ys)"

text \<open>The slice \<open>xs[:n]\<close>; a negative \<open>n\<close> counts from the end.\<close>

definition slice_to :: "'a list \<Rightarrow> int \<Rightarrow> 'a list" where
  "slice_to xs n =
     (if n < 0 then take (nat (int (length xs) + n)) xs else take (nat n) xs)"

section \<open>Argument classifier: \<open>_extract_commit_args\<close>\<close>

definition is_message_flag :: "pystr \<Rightarrow> bool" where
  "is_message_flag a \<longleftrightarrow> a = py ''-m'' \<or> a = py ''--message''"

text \<open>
  The test \<open>val == "" or val == '"' or val == "'"\<close>: the empty string, one double
  quotation mark (U+0022) or one apostrophe (U+0027).
\<close>

definition is_blank_value :: "pystr \<Rightarrow> bool" where
  "is_blank_value val \<longleftrightarrow> val = [] \<or> val = [34] \<or> val = [39]"

text \<open>
  The \<open>while i < len(args)\<close> loop. The third argument is \<open>args[i:]\<close>, the tokens
  not yet scanned; \<open>args\<close> itself is kept for the early return
  \<open>["commit"] + args\<close>. A flag with a blank value advances \<open>i\<close> by two, a flag in
  last position by one, any other token is appended to \<open>cleaned\<close>.
\<close>

fun scan_args :: "pystr list \<Rightarrow> bool \<Rightarrow> pystr list \<Rightarrow> pystr list \<Rightarrow> bool \<times> pystr list" where
  "scan_args args should_generate cleaned [] = (should_generate, cleaned)"
| "scan_args args should_generate cleaned [a] =
     (if is_message_flag a then scan_args args True cleaned []
      else scan_args args should_generate (cleaned @ [a]) [])"
| "scan_args args should_generate cleaned (a # val # rest) =
     (if is_message_flag a then
        (if is_blank_value val then scan_args args True cleaned rest
         else (False, py ''commit'' # args))
      else scan_args args should_generate (cleaned @ [a]) (val # rest))"

definition extract_commit_args :: "pystr list \<Rightarrow> bool \<times> pystr list" where
  "extract_commit_args argv =
     (case argv of
        [] \<Rightarrow> (False, argv)
      | c # args \<Rightarrow>
          if c \<noteq> py ''commit'' then (False, argv)
          else scan_args args False [py ''commit''] args)"

section \<open>The outside world\<close>

text \<open>
  Every \<open>raise\<close> of the source is a branch of the model. The source raises
  \<open>RuntimeError\<close> with a message at each site; the constructors name the sites.
  \<open>IndexError\<close> is the failure of \<open>content.splitlines()[0]\<close> on an empty list.
\<close>

datatype error =
    DiffUnavailable pystr         \<comment> \<open>\<open>err.strip() or "failed to get staged diff"\<close>\<close>
  | UnsupportedProvider pystr     \<comment> \<open>\<open>"Unsupported provider: ..."\<close>\<close>
  | MissingCredential             \<comment> \<open>\<open>"Missing OPENAI_API_KEY"\<close>\<close>
  | TransportError                \<comment> \<open>\<open>"OpenAI request failed ..."\<close>\<close>
  | ProviderHTTPError int         \<comment> \<open>\<open>"OpenAI API error: HTTP <status>"\<close>\<close>
  | MalformedResponse             \<comment> \<open>\<open>"Unexpected OpenAI response format: ..."\<close>\<close>
  | IndexError

text \<open>
  The request of \<open>_openai_chat_complete\<close>: URL, bearer credential, and the payload's
  model, role-tagged messages and token budget, with the timeout. (The payload's
  sampling temperature is the floating-point constant 0.2 and is left out.)
\<close>

record request =
  url :: pystr
  bearer :: pystr
  req_model :: pystr
  req_messages :: "(pystr \<times> pystr) list"
  max_tokens :: int
  timeout_s :: int

datatype diagnostic =
    FailedToReadDiff error
  | NoStagedChanges
  | GenerationFailed error
  | EmptyModelMessage

datatype notice = Generating | ShowMessage pystr

text \<open>What a run does to the outside, in order.\<close>

datatype event =
    RunGit "pystr list"
  | CaptureGit "pystr list"
  | HttpPost request
  | PrintErr diagnostic
  | PrintOut notice
  | RcWarning pystr

text \<open>
  What the outside answers. \<open>capture_git\<close> and \<open>run_git\<close> are the two child-process
  calls; \<open>getenv\<close> is \<open>os.getenv\<close>; \<open>read_simple_rc\<close> is the dictionary that
  \<open>_read_simple_rc\<close> returns, with the warning it prints when reading fails;
  \<open>post_fn\<close> is the selected HTTP implementation (\<open>None\<close> when it raises);
  \<open>json_content\<close> is \<open>json.loads(text)["choices"][0]["message"]["content"]\<close>
  (\<open>None\<close> when that raises or the value is not a string); \<open>str_lower\<close> is
  \<open>str.lower\<close>, whose Unicode case table is not part of the source.
\<close>

record env =
  capture_git :: "pystr list \<Rightarrow> int \<times> pystr \<times> pystr"
  run_git :: "pystr list \<Rightarrow> int"
  getenv :: "pystr \<Rightarrow> pystr option"
  read_simple_rc :: "(pystr \<Rightarrow> pystr option) \<times> pystr option"
  post_fn :: "request \<Rightarrow> (int \<times> pystr) option"
  json_content :: "pystr \<Rightarrow> pystr option"
  str_lower :: "pystr \<Rightarrow> pystr"

section \<open>Configuration: \<open>_get_config\<close>\<close>

record config =
  provider :: pystr
  model :: pystr
  style :: pystr

definition lookup_setting :: "env \<Rightarrow> (pystr \<Rightarrow> pystr option) \<Rightarrow> pystr \<Rightarrow> pystr \<Rightarrow> pystr \<Rightarrow> pystr" where
  "lookup_setting e rc var key dflt =
     (case getenv e var of
        Some v \<Rightarrow> v
      | None \<Rightarrow> (case rc key of Some v \<Rightarrow> v | None \<Rightarrow> dflt))"

definition get_config :: "env \<Rightarrow> config \<times> event list" where
  "get_config e =
     (let (rc, warning) = read_simple_rc e in
      (\<lparr> provider = lookup_setting e rc (py ''NSCM_PROVIDER'') (py ''provider'') (py ''openai''),
         model = lookup_setting e rc (py ''NSCM_MODEL'') (py ''model'') (py ''gpt-4o-mini''),
         style = lookup_setting e rc (py ''NSCM_STYLE'') (py ''style'') (py ''conventional'') \<rparr>,
       (case warning of None \<Rightarrow> [] | Some w \<Rightarrow> [RcWarning w])))"

section \<open>Diff collector: \<open>_get_staged_diff\<close>\<close>

definition truncation_marker :: pystr where
  "truncation_marker = 10 # py ''... (truncated) ...''"

definition get_staged_diff :: "env \<Rightarrow> int \<Rightarrow> (error + pystr) \<times> event list" where
  "get_staged_diff e max_lines =
     (let git_args = [py ''diff'', py ''--cached''];
          (code, out, err) = capture_git e git_args
      in
        (if code \<noteq> 0 then
           Inl (DiffUnavailable
                  (if strip err \<noteq> [] then strip err else py ''failed to get staged diff''))
         else if strip out = [] then Inr []
         else
           (let lines = splitlines out;
                lines' = (if int (length lines) > max_lines
                          then slice_to lines max_lines @ [truncation_marker]
                          else lines)
            in Inr (join [10] lines')),
         [CaptureGit git_args]))"

section \<open>Message generator: \<open>_openai_chat_complete\<close> and \<open>_generate_message\<close>\<close>

definition openai_chat_complete ::
    "env \<Rightarrow> pystr \<Rightarrow> (pystr \<times> pystr) list \<Rightarrow> int \<Rightarrow> (error + pystr) \<times> event list" where
  "openai_chat_complete e mdl messages timeout =
     (case getenv e (py ''OPENAI_API_KEY'') of
        None \<Rightarrow> (Inl MissingCredential, [])
      | Some api_key \<Rightarrow>
          if api_key = [] then (Inl MissingCredential, [])
          else
            (let req = \<lparr> url = py ''https://api.openai.com/v1/chat/completions'',
                         bearer = api_key,
                         req_model = mdl,
                         req_messages = messages,
                         max_tokens = 120,
                         timeout_s = timeout \<rparr>
             in
               (case post_fn e req of
                  None \<Rightarrow> (Inl TransportError, [HttpPost req])
                | Some (status, text) \<Rightarrow>
                    if status < 200 \<or> status \<ge> 300 then
                      (Inl (ProviderHTTPError status), [HttpPost req])
                    else
                      (case json_content e text of
                         None \<Rightarrow> (Inl MalformedResponse, [HttpPost req])
                       | Some content \<Rightarrow> (Inr (strip content), [HttpPost req])))))"

definition startswith :: "pystr \<Rightarrow> pystr \<Rightarrow> bool" where
  "startswith s p \<longleftrightarrow> take (length p) s = p"

definition system_style :: "env \<Rightarrow> pystr \<Rightarrow> pystr" where
  "system_style e sty =
     py ''Write a short, clear, conventional git commit message. ''
     @ py ''Single-line subject only, <= 72 chars, present tense, no trailing period.''
     @ (if startswith (str_lower e sty) (py ''conventional'')
        then py '' Use Conventional Commits format: type(scope?): subject.''
        else [])"

definition user_prompt :: "pystr \<Rightarrow> pystr" where
  "user_prompt diff =
     py ''Summarize the staged diff into a single-line commit subject. ''
     @ py ''Focus on intent and impact, not code details.''
     @ [10, 10] @ py ''DIFF:'' @ [10] @ diff"

definition generate_message ::
    "env \<Rightarrow> pystr \<Rightarrow> pystr \<Rightarrow> pystr \<Rightarrow> pystr \<Rightarrow> (error + pystr) \<times> event list" where
  "generate_message e diff prov mdl sty =
     (if prov \<noteq> py ''openai'' then (Inl (UnsupportedProvider prov), [])
      else
        (let messages = [(py ''system'', system_style e sty),
                         (py ''user'', user_prompt diff)]
         in
           (case openai_chat_complete e mdl messages 20 of
              (Inl err, evs) \<Rightarrow> (Inl err, evs)
            | (Inr content, evs) \<Rightarrow>
                (case splitlines content of
                   [] \<Rightarrow> (Inl IndexError, evs)
                 | l # _ \<Rightarrow>
                     (let first_line = strip l
                      in (Inr (if length first_line > 120
                               then rstrip (take 120 first_line)
                               else first_line), evs))))))"

section \<open>Entry point: \<open>main\<close>\<close>

text \<open>The result is the exit code and the trace of events of the run.\<close>

definition main :: "env \<Rightarrow> pystr list \<Rightarrow> int \<times> event list" where
  "main e argv =
     (let (should_generate, passthrough) = extract_commit_args argv in
      if \<not> should_generate then (run_git e argv, [RunGit argv])
      else
        (case get_staged_diff e 500 of
           (Inl err, evs1) \<Rightarrow> (1, evs1 @ [PrintErr (FailedToReadDiff err)])
         | (Inr diff, evs1) \<Rightarrow>
             if strip diff = [] then (1, evs1 @ [PrintErr NoStagedChanges])
             else
               (let (cfg, evs2) = get_config e;
                    evs3 = evs1 @ evs2 @ [PrintOut Generating]
                in
                  (case generate_message e diff (provider cfg) (model cfg) (style cfg) of
                     (Inl err, evs4) \<Rightarrow>
                       (1, evs3 @ evs4 @ [PrintErr (GenerationFailed err)])
                   | (Inr message, evs4) \<Rightarrow>
                       if strip message = [] then
                         (1, evs3 @ evs4 @ [PrintErr EmptyModelMessage])
                       else
                         (let commit_args = passthrough @ [py ''-m'', message]
                          in (run_git e commit_args,
                              evs3 @ evs4
                              @ [PrintOut (ShowMessage message), RunGit commit_args]))))))"

text \<open>The text-generation call is the HTTP request.\<close>

fun is_generation_call :: "event \<Rightarrow> bool" where
  "is_generation_call (HttpPost _) = True"
| "is_generation_call _ = False"

section \<open>Vocabulary of the properties\<close>

text \<open>
  A message flag carries a real message when the token right after it is neither
  empty nor a bare quotation mark.
\<close>

definition has_real_message :: "pystr list \<Rightarrow> bool" where
  "has_real_message args \<longleftrightarrow>
     (\<exists>(a, val) \<in> set (zip args (tl args)). is_message_flag a \<and> \<not> is_blank_value val)"

text \<open>
  The tokens of \<open>args\<close>, in their order, that are neither a message flag nor the
  token right after a message flag; \<open>p\<close> says whether the token before the first
  one was a message flag.
\<close>

definition kept_from :: "bool \<Rightarrow> pystr list \<Rightarrow> pystr list" where
  "kept_from p args =
     map snd (filter (\<lambda>(after_flag, a). \<not> after_flag \<and> \<not> is_message_flag a)
                (zip (p # map is_message_flag args) args))"

abbreviation kept_tokens :: "pystr list \<Rightarrow> pystr list" where
  "kept_tokens args \<equiv> kept_from False args"

text \<open>
  A world for concrete runs: git prints \<open>out\<close> for the staged diff and succeeds,
  the credential is set, no rc file and no override exists, and the provider answers
  HTTP 200 with a body whose message content is \<open>content\<close>.
\<close>

definition example_env :: "pystr \<Rightarrow> pystr \<Rightarrow> env" where
  "example_env out content =
     \<lparr> capture_git = (\<lambda>_. (0, out, [])),
       run_git = (\<lambda>_. 0),
       getenv = (\<lambda>v. if v = py ''OPENAI_API_KEY'' then Some (py ''sk-test'') else None),
       read_simple_rc = (\<lambda>_. None, None),
       post_fn = (\<lambda>_. Some (200, content)),
       json_content = Some,
       str_lower = (\<lambda>s. s) \<rparr>"

section \<open>Classifier: what the scan computes\<close>

lemma blank_not_flag: "is_blank_value v \<Longrightarrow> \<not> is_message_flag v"
  by (auto simp: is_blank_value_def is_message_flag_def py_def)

lemma has_real_message_simps:
  "has_real_message [] = False"
  "has_real_message [a] = False"
  "has_real_message (a # val # rest) =
     ((is_message_flag a \<and> \<not> is_blank_value val) \<or> has_real_message (val # rest))"
  by (auto simp: has_real_message_def)

lemma kept_from_simps:
  "kept_from p [] = []"
  "kept_from p (a # rest) =
     (if \<not> p \<and> \<not> is_message_flag a then a # kept_from (is_message_flag a) rest
      else kept_from (is_message_flag a) rest)"
  by (auto simp: kept_from_def)

lemma scan_args_real:
  "has_real_message rest \<Longrightarrow> scan_args args sg cleaned rest = (False, py ''commit'' # args)"
proof (induction args sg cleaned rest rule: scan_args.induct)
  case (1 args sg cleaned)
  then show ?case by (simp add: has_real_message_simps)
next
  case (2 args sg cleaned a)
  then show ?case by (simp add: has_real_message_simps)
next
  case (3 args sg cleaned a val rest)
  show ?case
  proof (cases "is_message_flag a")
    case True
    show ?thesis
    proof (cases "is_blank_value val")
      case blank: True
      then have nf: "\<not> is_message_flag val" by (rule blank_not_flag)
      from "3.prems" True blank have "has_real_message (val # rest)"
        by (simp add: has_real_message_simps)
      with nf have "has_real_message rest"
        by (cases rest) (simp_all add: has_real_message_simps)
      with "3.IH"(1) True blank show ?thesis by simp
    next
      case False
      with True show ?thesis by simp
    qed
  next
    case False
    with "3.prems" have "has_real_message (val # rest)"
      by (simp add: has_real_message_simps)
    with "3.IH"(2) False show ?thesis by simp
  qed
qed

lemma scan_args_clean:
  "\<not> has_real_message rest \<Longrightarrow>
   scan_args args sg cleaned rest =
     (sg \<or> list_ex is_message_flag rest, cleaned @ kept_tokens rest)"
proof (induction args sg cleaned rest rule: scan_args.induct)
  case (1 args sg cleaned)
  then show ?case by (simp add: kept_from_simps)
next
  case (2 args sg cleaned a)
  then show ?case by (simp add: kept_from_simps)
next
  case (3 args sg cleaned a val rest)
  show ?case
  proof (cases "is_message_flag a")
    case True
    with "3.prems" have blank: "is_blank_value val"
      by (simp add: has_real_message_simps)
    then have nf: "\<not> is_message_flag val" by (rule blank_not_flag)
    from "3.prems" nf have "\<not> has_real_message rest"
      by (cases rest) (simp_all add: has_real_message_simps)
    with "3.IH"(1) True blank nf show ?thesis by (simp add: kept_from_simps)
  next
    case False
    with "3.prems" have "\<not> has_real_message (val # rest)"
      by (simp add: has_real_message_simps)
    with "3.IH"(2) False show ?thesis by (simp add: kept_from_simps)
  qed
qed

lemma extract_commit:
  "extract_commit_args (py ''commit'' # args) =
     (if has_real_message args then (False, py ''commit'' # args)
      else (list_ex is_message_flag args, py ''commit'' # kept_tokens args))"
  by (simp add: extract_commit_args_def scan_args_real scan_args_clean)

lemma extract_True_commit:
  assumes "fst (extract_commit_args argv)"
  shows "\<exists>args. argv = py ''commit'' # args"
  using assms by (cases argv) (auto simp: extract_commit_args_def split: if_splits)

lemma has_real_message_Cons: "has_real_message rest \<Longrightarrow> has_real_message (x # rest)"
  by (cases rest) (simp_all add: has_real_message_simps)

lemma has_real_message_mid:
  "is_message_flag a \<Longrightarrow> \<not> is_blank_value val \<Longrightarrow> has_real_message (pre @ a # val # post)"
  by (induction pre) (simp_all add: has_real_message_simps has_real_message_Cons)

lemma kept_from_no_flag: "a \<in> set (kept_from p args) \<Longrightarrow> \<not> is_message_flag a"
  by (induction args arbitrary: p) (auto simp: kept_from_simps split: if_splits)

lemma kept_from_all:
  "\<forall>a\<in>set args. \<not> is_message_flag a \<Longrightarrow> kept_tokens args = args"
  by (induction args) (simp_all add: kept_from_simps)

lemma kept_from_append:
  "kept_from p (xs @ ys) =
     kept_from p xs @ kept_from (if xs = [] then p else is_message_flag (last xs)) ys"
  by (induction xs arbitrary: p) (simp_all add: kept_from_simps)

lemma kept_from_flag_value:
  assumes "is_message_flag a" "\<not> is_message_flag val"
  shows "kept_from p (pre @ a # val # post) = kept_from p pre @ kept_tokens post"
  using assms by (simp add: kept_from_append kept_from_simps)

lemma no_flag_no_real: "\<forall>a\<in>set args. \<not> is_message_flag a \<Longrightarrow> \<not> has_real_message args"
  by (auto simp: has_real_message_def dest: set_zip_leftD)

lemma list_ex_flag_iff: "list_ex is_message_flag args \<longleftrightarrow> (\<exists>a\<in>set args. is_message_flag a)"
  by (simp add: list_ex_iff)

lemmas token_simps = is_message_flag_def is_blank_value_def py_def

section \<open>Argument classifier: the claims\<close>

text \<open>
  Claim C1, as amended. The first message flag does not decide alone. For every commit
  invocation, generation is requested exactly when the arguments contain a message
  flag and no message flag is followed by a non-empty, non-quote token; and a message
  flag followed by such a token, wherever it stands (also after a message flag with an
  empty or bare-quote value), makes the classifier return \<open>should_generate = false\<close>
  with the original sequence.
\<close>
theorem first_real_message_decides:
  "fst (extract_commit_args (py ''commit'' # args))
     = ((\<exists>a\<in>set args. is_message_flag a) \<and> \<not> has_real_message args)
   \<and> (has_real_message args \<longrightarrow>
        extract_commit_args (py ''commit'' # args) = (False, py ''commit'' # args))"
  by (simp add: extract_commit list_ex_flag_iff)

text \<open>An empty-valued long flag followed by a real short one: no generation.\<close>
theorem first_real_message_decides_witness:
  "has_real_message [py ''--message'', [34], py ''-m'', py ''add parser'']
   \<and> extract_commit_args (py ''commit'' # [py ''--message'', [34], py ''-m'', py ''add parser''])
       = (False, py ''commit'' # [py ''--message'', [34], py ''-m'', py ''add parser''])"
  using first_real_message_decides [of "[py ''--message'', [34], py ''-m'', py ''add parser'']"]
  by (simp add: has_real_message_def token_simps)

text \<open>
  Claim C1 as stated fails on \<open>commit -m "" -m "fix typo"\<close>: the first message flag
  carries an empty value, yet the later non-empty one makes the classifier return
  \<open>should_generate = false\<close>.
\<close>
theorem first_blank_flag_not_decisive:
  "is_message_flag (py ''-m'') \<and> is_blank_value [] \<and> \<not> is_blank_value (py ''fix typo'')
   \<and> extract_commit_args [py ''commit'', py ''-m'', [], py ''-m'', py ''fix typo'']
       = (False, [py ''commit'', py ''-m'', [], py ''-m'', py ''fix typo''])"
  by (simp add: extract_commit_args_def token_simps)

text \<open>
  Claim C5, as amended. For every commit invocation in which a message flag is
  followed by an empty string or a bare quotation mark, and in which no message flag
  is followed by a non-empty, non-quote token, the classifier returns
  \<open>should_generate = true\<close> and the cleaned sequence is the cleaned tokens before that
  flag followed by the cleaned tokens after its value: the flag and its value are gone.
\<close>
theorem blank_message_generates:
  assumes "is_message_flag a" and "is_blank_value val"
    and "\<not> has_real_message (pre @ a # val # post)"
  shows "extract_commit_args (py ''commit'' # pre @ a # val # post)
           = (True, py ''commit'' # kept_tokens pre @ kept_tokens post)"
proof -
  have "\<not> is_message_flag val" using assms(2) by (rule blank_not_flag)
  with assms(1) have "kept_tokens (pre @ a # val # post) = kept_tokens pre @ kept_tokens post"
    by (rule kept_from_flag_value)
  with assms(1,3) show ?thesis by (simp add: extract_commit)
qed

text \<open>\<open>commit -a --message " --amend\<close> is cleaned to \<open>commit -a --amend\<close>.\<close>
theorem blank_message_generates_witness:
  "extract_commit_args (py ''commit'' # [py ''-a''] @ py ''--message'' # [34] # [py ''--amend''])
     = (True, [py ''commit'', py ''-a'', py ''--amend''])"
  using blank_message_generates [of "py ''--message''" "[34]" "[py ''-a'']" "[py ''--amend'']"]
  by (simp add: has_real_message_def kept_from_def token_simps)

text \<open>
  Claim C5 as stated fails on \<open>commit --message ' -m wip\<close>: the long flag is followed
  by a bare apostrophe, but the result is \<open>should_generate = false\<close> and nothing is
  removed.
\<close>
theorem blank_message_overridden:
  "is_message_flag (py ''--message'') \<and> is_blank_value [39]
   \<and> extract_commit_args [py ''commit'', py ''--message'', [39], py ''-m'', py ''wip'']
       = (False, [py ''commit'', py ''--message'', [39], py ''-m'', py ''wip''])"
  by (simp add: extract_commit_args_def token_simps)

text \<open>
  Claim C6. For every commit invocation in which a message flag is followed by a
  token that is non-empty and not a bare quotation mark, the classifier returns
  \<open>should_generate = false\<close> and the original argument sequence unchanged, whatever
  stands before and after.
\<close>
theorem real_message_passthrough:
  assumes "is_message_flag a" and "\<not> is_blank_value val"
  shows "extract_commit_args (py ''commit'' # pre @ a # val # post)
           = (False, py ''commit'' # pre @ a # val # post)"
  using has_real_message_mid [OF assms] by (simp add: extract_commit)

text \<open>A real message followed by an empty one is passed through.\<close>
theorem real_message_passthrough_witness:
  "extract_commit_args (py ''commit'' # [py ''-a''] @ py ''-m'' # py ''fix bug'' # [py ''-m'', []])
     = (False, [py ''commit'', py ''-a'', py ''-m'', py ''fix bug'', py ''-m'', []])"
  using real_message_passthrough [of "py ''-m''" "py ''fix bug''" "[py ''-a'']" "[py ''-m'', []]"]
  by (simp add: token_simps)

text \<open>
  Claim C7, as amended. For every commit invocation whose final token is a message
  flag, and in which no message flag is followed by a non-empty, non-quote token, the
  classifier returns \<open>should_generate = true\<close>.
\<close>
theorem dangling_flag_generates:
  assumes "is_message_flag a" and "\<not> has_real_message (pre @ [a])"
  shows "fst (extract_commit_args (py ''commit'' # pre @ [a]))"
  using assms by (simp add: extract_commit list_ex_flag_iff)

text \<open>\<open>commit -a -m\<close> requests generation.\<close>
theorem dangling_flag_generates_witness:
  "fst (extract_commit_args (py ''commit'' # [py ''-a''] @ [py ''-m'']))"
  using dangling_flag_generates [of "py ''-m''" "[py ''-a'']"]
  by (simp add: has_real_message_def token_simps)

text \<open>
  Claim C7 as stated fails on \<open>commit -m msg --message\<close>: the final token is a message
  flag with no value, but the earlier real message gives \<open>should_generate = false\<close>.
\<close>
theorem dangling_flag_overridden:
  "is_message_flag (py ''--message'')
   \<and> last [py ''commit'', py ''-m'', py ''msg'', py ''--message''] = py ''--message''
   \<and> fst (extract_commit_args [py ''commit'', py ''-m'', py ''msg'', py ''--message'']) = False"
  by (simp add: extract_commit_args_def token_simps)

text \<open>
  Claim C9, as amended. Whenever the classifier returns \<open>should_generate = true\<close>, the
  cleaned sequence begins with the commit subcommand token, contains no message-flag
  token, and consists of that token followed, in their original order, by exactly the
  original tokens that are neither a message flag nor the token right after one; the
  tokens right after a message flag are all empty or bare-quote values, and they are
  dropped with their flags.
\<close>
theorem cleaned_sequence_shape:
  assumes "extract_commit_args argv = (True, cleaned)"
  shows "hd cleaned = py ''commit''
       \<and> (\<forall>a\<in>set cleaned. \<not> is_message_flag a)
       \<and> hd argv = py ''commit'' \<and> argv \<noteq> []
       \<and> \<not> has_real_message (tl argv)
       \<and> cleaned = py ''commit'' # kept_tokens (tl argv)"
proof -
  from assms have "fst (extract_commit_args argv)" by simp
  then obtain args where argv: "argv = py ''commit'' # args"
    using extract_True_commit by blast
  from assms argv have nr: "\<not> has_real_message args"
    by (auto simp: extract_commit split: if_splits)
  with assms argv have cl: "cleaned = py ''commit'' # kept_tokens args"
    by (simp add: extract_commit)
  have "\<not> is_message_flag (py ''commit'')" by (simp add: token_simps)
  with cl have "\<forall>a\<in>set cleaned. \<not> is_message_flag a"
    by (auto dest: kept_from_no_flag)
  with argv nr cl show ?thesis by simp
qed

text \<open>\<open>commit -a -m "" --amend -m\<close> is cleaned to \<open>commit -a --amend\<close>.\<close>
theorem cleaned_sequence_shape_witness:
  "extract_commit_args [py ''commit'', py ''-a'', py ''-m'', [], py ''--amend'', py ''-m'']
     = (True, [py ''commit'', py ''-a'', py ''--amend''])
   \<and> kept_tokens [py ''-a'', py ''-m'', [], py ''--amend'', py ''-m'']
       = [py ''-a'', py ''--amend'']"
proof -
  have run: "extract_commit_args [py ''commit'', py ''-a'', py ''-m'', [], py ''--amend'', py ''-m'']
     = (True, [py ''commit'', py ''-a'', py ''--amend''])"
    by (simp add: extract_commit_args_def token_simps)
  from cleaned_sequence_shape [OF run] run show ?thesis by simp
qed

text \<open>
  Claim C9 as stated fails on \<open>commit -m ""\<close>: the empty-string token is an original
  token other than a message flag, and the cleaned sequence does not preserve it.
\<close>
theorem blank_value_not_preserved:
  "extract_commit_args [py ''commit'', py ''-m'', []] = (True, [py ''commit''])
   \<and> [] \<in> set [py ''commit'', py ''-m'', []] \<and> \<not> is_message_flag []
   \<and> [] \<notin> set [py ''commit'']"
  by (simp add: extract_commit_args_def token_simps)

text \<open>
  Claim C10. For every commit invocation containing no message-flag token, the
  classifier returns \<open>should_generate = false\<close> and the original sequence, and
  \<open>main\<close> runs the underlying tool once on the unchanged arguments and returns its
  exit code.
\<close>
theorem plain_commit_passthrough:
  assumes "\<forall>a\<in>set args. \<not> is_message_flag a"
  shows "extract_commit_args (py ''commit'' # args) = (False, py ''commit'' # args)
       \<and> main e (py ''commit'' # args)
           = (run_git e (py ''commit'' # args), [RunGit (py ''commit'' # args)])"
proof -
  from assms have "\<not> has_real_message args" by (rule no_flag_no_real)
  with assms have "extract_commit_args (py ''commit'' # args) = (False, py ''commit'' # args)"
    by (simp add: extract_commit list_ex_flag_iff kept_from_all)
  then show ?thesis by (simp add: main_def)
qed

text \<open>\<open>commit -a --amend\<close> goes to git as it is.\<close>
theorem plain_commit_passthrough_witness:
  "extract_commit_args (py ''commit'' # [py ''-a'', py ''--amend''])
     = (False, py ''commit'' # [py ''-a'', py ''--amend''])
   \<and> main (example_env [] []) (py ''commit'' # [py ''-a'', py ''--amend''])
       = (0, [RunGit (py ''commit'' # [py ''-a'', py ''--amend''])])"
  using plain_commit_passthrough [of "[py ''-a'', py ''--amend'']" "example_env [] []"]
  by (simp add: token_simps example_env_def)

section \<open>Strings: lines and whitespace\<close>

lemma linebreak_isspace: "is_linebreak c \<Longrightarrow> isspace c"
  by (auto simp: is_linebreak_def isspace_def)

lemma splitlines_Nil: "splitlines [] = []"
  by (simp add: splitlines.simps)

lemma splitlines_nonempty:
  "s \<noteq> [] \<Longrightarrow>
   splitlines s = takeWhile (\<lambda>c. \<not> is_linebreak c) s
                  # splitlines (drop_eol (dropWhile (\<lambda>c. \<not> is_linebreak c) s))"
  by (subst splitlines.simps) simp

lemma splitlines_eq_Nil_iff: "splitlines s = [] \<longleftrightarrow> s = []"
  by (cases "s = []") (simp_all add: splitlines_Nil splitlines_nonempty)

lemma splitlines_no_linebreak:
  "l \<in> set (splitlines s) \<Longrightarrow> c \<in> set l \<Longrightarrow> \<not> is_linebreak c"
proof (induction s rule: splitlines.induct)
  case (1 s)
  show ?case
  proof (cases "s = []")
    case True
    with "1.prems" show ?thesis by (simp add: splitlines_Nil)
  next
    case False
    from "1.prems"(1) False
    consider "l = takeWhile (\<lambda>c. \<not> is_linebreak c) s"
      | "l \<in> set (splitlines (drop_eol (dropWhile (\<lambda>c. \<not> is_linebreak c) s)))"
      by (auto simp: splitlines_nonempty)
    then show ?thesis
    proof cases
      case 1
      with "1.prems"(2) show ?thesis by (auto dest: set_takeWhileD)
    next
      case 2
      with "1.IH" False "1.prems"(2) show ?thesis by simp
    qed
  qed
qed

lemma splitlines_line_LF:
  assumes "\<forall>c\<in>set l. \<not> is_linebreak c"
  shows "splitlines (l @ 10 # rest) = l # splitlines rest"
proof -
  have lb: "is_linebreak 10" by (simp add: is_linebreak_def)
  have tw: "takeWhile (\<lambda>c. \<not> is_linebreak c) (l @ 10 # rest) = l"
    using assms lb by (simp add: takeWhile_append2)
  have dw: "dropWhile (\<lambda>c. \<not> is_linebreak c) (l @ 10 # rest) = 10 # rest"
    using assms lb by (simp add: dropWhile_append2)
  have "drop_eol (10 # rest) = rest" by (cases rest) simp_all
  with tw dw show ?thesis by (simp add: splitlines_nonempty)
qed

lemma splitlines_single:
  assumes "s \<noteq> []" "\<forall>c\<in>set s. \<not> is_linebreak c"
  shows "splitlines s = [s]"
proof -
  have tw: "takeWhile (\<lambda>c. \<not> is_linebreak c) s = s" using assms(2) by (simp add: takeWhile_eq_all_conv)
  have dw: "dropWhile (\<lambda>c. \<not> is_linebreak c) s = []" using assms(2) by simp
  show ?thesis
    unfolding splitlines_nonempty [OF assms(1)] tw dw by (simp add: splitlines_Nil)
qed

lemma join_Cons: "ys \<noteq> [] \<Longrightarrow> join sep (x # ys) = x @ sep @ join sep ys"
  by (cases ys) simp_all

lemma splitlines_join_marker:
  assumes "\<forall>l\<in>set ls. \<forall>c\<in>set l. \<not> is_linebreak c"
    and "m \<noteq> []" and "\<forall>c\<in>set m. \<not> is_linebreak c"
  shows "splitlines (join [10] (ls @ [10 # m])) = ls @ [[], m]"
  using assms(1)
proof (induction ls)
  case Nil
  have "splitlines ([] @ 10 # m) = [] # splitlines m" by (rule splitlines_line_LF) simp
  with assms(2,3) show ?case by (simp add: splitlines_single)
next
  case (Cons l ls)
  have "join [10] ((l # ls) @ [10 # m]) = l @ 10 # join [10] (ls @ [10 # m])"
    by (simp add: join_Cons)
  moreover have "splitlines (l @ 10 # join [10] (ls @ [10 # m]))
      = l # splitlines (join [10] (ls @ [10 # m]))"
    using Cons.prems by (intro splitlines_line_LF) simp
  ultimately show ?case using Cons by simp
qed

lemma rstrip_eq_Nil_iff: "rstrip s = [] \<longleftrightarrow> (\<forall>c\<in>set s. isspace c)"
  by (simp add: rstrip_def dropWhile_eq_Nil_conv)

lemma strip_eq_Nil_iff: "strip s = [] \<longleftrightarrow> (\<forall>c\<in>set s. isspace c)"
proof
  assume "strip s = []"
  then have "\<forall>c\<in>set (dropWhile isspace s). isspace c"
    by (simp add: strip_def lstrip_def rstrip_eq_Nil_iff)
  then have "dropWhile isspace s = []"
    by (metis hd_dropWhile list.set_sel(1))
  then show "\<forall>c\<in>set s. isspace c" by (simp add: dropWhile_eq_Nil_conv)
next
  assume "\<forall>c\<in>set s. isspace c"
  then have dw: "dropWhile isspace s = []" by simp
  show "strip s = []" unfolding strip_def lstrip_def rstrip_def dw by simp
qed

lemma rstrip_append:
  assumes "x \<noteq> []" "\<not> isspace (last x)"
  shows "rstrip (x @ t) = x @ rstrip t"
proof -
  have "dropWhile isspace (rev x) = rev x"
    using assms by (cases x rule: rev_cases) simp_all
  then show ?thesis
    by (simp add: rstrip_def dropWhile_append)
qed

lemma rstrip_spaces: "\<forall>c\<in>set w. isspace c \<Longrightarrow> rstrip w = []"
  by (simp add: rstrip_eq_Nil_iff)

lemma rstrip_sandwich:
  assumes "x \<noteq> []" "\<not> isspace (last x)" "\<forall>c\<in>set w. isspace c"
  shows "rstrip (x @ w) = x"
  using rstrip_append [OF assms(1,2), of w] rstrip_spaces [OF assms(3)] by simp

lemma rstrip_id: "x \<noteq> [] \<Longrightarrow> \<not> isspace (last x) \<Longrightarrow> rstrip x = x"
  using rstrip_sandwich [of x "[]"] by simp

lemma lstrip_sandwich:
  assumes "\<forall>c\<in>set w. isspace c" "x \<noteq> []" "\<not> isspace (hd x)"
  shows "lstrip (w @ x) = x"
  using assms by (cases x) (simp_all add: lstrip_def dropWhile_append)

lemma strip_sandwich:
  assumes "\<forall>c\<in>set w1. isspace c" "\<forall>c\<in>set w2. isspace c"
    and "x \<noteq> []" "\<not> isspace (hd x)" "\<not> isspace (last x)"
  shows "strip (w1 @ x @ w2) = x"
proof -
  have "x @ w2 \<noteq> []" "\<not> isspace (hd (x @ w2))" using assms(3,4) by simp_all
  then have "lstrip (w1 @ x @ w2) = x @ w2" using assms(1) by (intro lstrip_sandwich)
  then show ?thesis using assms by (simp add: strip_def rstrip_sandwich)
qed

text \<open>Every string is leading whitespace, its stripped core, trailing whitespace.\<close>

lemma rstrip_decomp: "\<exists>w. s = rstrip s @ w \<and> (\<forall>c\<in>set w. isspace c)"
proof -
  have "rev s = takeWhile isspace (rev s) @ dropWhile isspace (rev s)" by simp
  then have "s = rev (dropWhile isspace (rev s)) @ rev (takeWhile isspace (rev s))"
    by (metis rev_append rev_rev_ident)
  moreover have "\<forall>c\<in>set (rev (takeWhile isspace (rev s))). isspace c"
    by (auto dest: set_takeWhileD)
  ultimately show ?thesis unfolding rstrip_def by blast
qed

lemma last_rstrip: "rstrip s \<noteq> [] \<Longrightarrow> \<not> isspace (last (rstrip s))"
proof -
  assume "rstrip s \<noteq> []"
  then have ne: "dropWhile isspace (rev s) \<noteq> []" by (simp add: rstrip_def)
  then have "\<not> isspace (hd (dropWhile isspace (rev s)))" by (rule hd_dropWhile)
  with ne show ?thesis by (simp add: rstrip_def last_rev)
qed

lemma hd_rstrip: "\<not> isspace (hd s) \<Longrightarrow> s \<noteq> [] \<Longrightarrow> rstrip s \<noteq> [] \<and> hd (rstrip s) = hd s"
proof -
  assume a: "\<not> isspace (hd s)" "s \<noteq> []"
  then have ne: "rstrip s \<noteq> []" by (auto simp: rstrip_eq_Nil_iff intro: bexI [of _ "hd s"])
  obtain w where "s = rstrip s @ w" using rstrip_decomp by blast
  then have "hd s = hd (rstrip s @ w)" by simp
  with ne show ?thesis by simp
qed

lemma strip_decomp:
  "\<exists>w1 w2. s = w1 @ strip s @ w2 \<and> (\<forall>c\<in>set w1. isspace c) \<and> (\<forall>c\<in>set w2. isspace c)"
proof -
  obtain w2 where w2: "lstrip s = strip s @ w2" "\<forall>c\<in>set w2. isspace c"
    using rstrip_decomp [of "lstrip s"] by (auto simp: strip_def)
  have "s = takeWhile isspace s @ lstrip s" by (simp add: lstrip_def)
  moreover have "\<forall>c\<in>set (takeWhile isspace s). isspace c" by (auto dest: set_takeWhileD)
  ultimately show ?thesis using w2 by (metis)
qed

lemma strip_ends:
  assumes "strip s \<noteq> []"
  shows "\<not> isspace (hd (strip s))" "\<not> isspace (last (strip s))"
proof -
  from assms have ne: "lstrip s \<noteq> []" by (auto simp: strip_def rstrip_def)
  then have h: "\<not> isspace (hd (lstrip s))" unfolding lstrip_def by (rule hd_dropWhile)
  from hd_rstrip [OF h ne] h show "\<not> isspace (hd (strip s))" by (simp add: strip_def)
  from assms show "\<not> isspace (last (strip s))" unfolding strip_def by (rule last_rstrip)
qed

lemma set_rstrip: "set (rstrip s) \<subseteq> set s"
  by (auto simp: rstrip_def dest: set_dropWhileD)

lemma set_strip: "set (strip s) \<subseteq> set s"
  by (auto simp: strip_def rstrip_def lstrip_def dest!: set_dropWhileD)

lemma length_rstrip: "length (rstrip s) \<le> length s"
  by (simp add: rstrip_def length_dropWhile_le [of isspace "rev s", simplified])

lemma rstrip_is_take: "rstrip s = take (length (rstrip s)) s"
proof -
  obtain w where "s = rstrip s @ w" using rstrip_decomp by blast
  then show ?thesis by (metis append_eq_conv_conj)
qed

lemma takeWhile_take_commute: "takeWhile P (take n xs) = take n (takeWhile P xs)"
proof (induction xs arbitrary: n)
  case Nil
  then show ?case by simp
next
  case (Cons x xs)
  then show ?case by (cases n) simp_all
qed

lemma strip_strip: "strip (strip s) = strip s"
proof (cases "strip s = []")
  case True
  have "strip [] = []" by (simp add: strip_def lstrip_def rstrip_def)
  with True show ?thesis by simp
next
  case False
  from strip_sandwich [of "[]" "[]" "strip s"] strip_ends [OF False] False
  show ?thesis by simp
qed

lemma splitlines_two:
  assumes "\<forall>c\<in>set l. \<not> is_linebreak c" "m \<noteq> []" "\<forall>c\<in>set m. \<not> is_linebreak c"
  shows "splitlines (l @ 10 # m) = [l, m]"
  using splitlines_line_LF [OF assms(1), of m] splitlines_single [OF assms(2,3)] by simp

lemma splitlines_Cons_takeWhile:
  assumes "splitlines s = l # ls"
  shows "s \<noteq> []" "l = takeWhile (\<lambda>c. \<not> is_linebreak c) s"
proof -
  from assms show ne: "s \<noteq> []" by (auto simp: splitlines_Nil)
  from assms splitlines_nonempty [OF ne] show "l = takeWhile (\<lambda>c. \<not> is_linebreak c) s"
    by simp
qed

lemma takeWhile_hd_dropWhile: "takeWhile P (dropWhile P xs) = []"
proof (cases "dropWhile P xs")
  case Nil
  show ?thesis unfolding Nil by simp
next
  case (Cons a list)
  have "dropWhile P xs \<noteq> []" unfolding Cons by simp
  then have "\<not> P (hd (dropWhile P xs))" by (rule hd_dropWhile)
  then have "\<not> P a" unfolding Cons by simp
  then show ?thesis unfolding Cons by simp
qed

text \<open>The first line of a stripped string, stripped, is the stripped first line.\<close>

lemma first_line_strip:
  assumes "splitlines raw = L # rest" and "\<exists>c\<in>set L. \<not> isspace c"
  shows "\<exists>l ls. splitlines (strip raw) = l # ls \<and> strip l = strip L"
proof -
  let ?nlb = "\<lambda>c. \<not> is_linebreak c"
  from splitlines_Cons_takeWhile [OF assms(1)]
  have ne: "raw \<noteq> []" and L: "L = takeWhile ?nlb raw" by simp_all
  define R where "R = dropWhile ?nlb raw"
  have raw: "raw = L @ R" by (simp add: L R_def)
  have Lnlb: "\<forall>c\<in>set L. \<not> is_linebreak c" unfolding L by (auto dest: set_takeWhileD)
  have twR: "takeWhile ?nlb R = []" unfolding R_def by (rule takeWhile_hd_dropWhile)
  define X where "X = strip L"
  from assms(2) have Xne: "X \<noteq> []" by (simp add: X_def strip_eq_Nil_iff)
  then have Xhd: "\<not> isspace (hd X)" and Xlast: "\<not> isspace (last X)"
    using strip_ends [of L] by (simp_all add: X_def)
  obtain w1 w2 where dec: "L = w1 @ X @ w2"
    and w1: "\<forall>c\<in>set w1. isspace c" and w2: "\<forall>c\<in>set w2. isspace c"
    using strip_decomp [of L] unfolding X_def by blast
  have Xnlb: "\<forall>c\<in>set X. \<not> is_linebreak c" and w2nlb: "\<forall>c\<in>set w2. \<not> is_linebreak c"
    using Lnlb dec by auto
  have "X @ w2 @ R \<noteq> []" "\<not> isspace (hd (X @ w2 @ R))" using Xne Xhd by simp_all
  then have "lstrip (w1 @ X @ w2 @ R) = X @ w2 @ R" using w1 by (intro lstrip_sandwich)
  then have "lstrip raw = X @ (w2 @ R)" by (simp add: raw dec)
  then have sr: "strip raw = X @ rstrip (w2 @ R)"
    using rstrip_append [OF Xne Xlast] by (simp add: strip_def)
  define k where "k = length (rstrip (w2 @ R))"
  have rk: "rstrip (w2 @ R) = take k (w2 @ R)" unfolding k_def by (rule rstrip_is_take)
  have "takeWhile ?nlb (w2 @ R) = w2" using w2nlb twR by (simp add: takeWhile_append2)
  then have "takeWhile ?nlb (take k (w2 @ R)) = take k w2"
    by (simp only: takeWhile_take_commute)
  with Xnlb have tw: "takeWhile ?nlb (strip raw) = X @ take k w2"
    by (simp add: sr rk takeWhile_append2)
  have srne: "strip raw \<noteq> []" using sr Xne by simp
  have "\<forall>c\<in>set (take k w2). isspace c" using w2 by (auto dest: in_set_takeD)
  then have "strip ([] @ X @ take k w2) = X" using Xne Xhd Xlast
    by (intro strip_sandwich) simp_all
  then have "strip (takeWhile ?nlb (strip raw)) = strip L" by (simp add: tw X_def)
  with splitlines_nonempty [OF srne] show ?thesis by blast
qed

lemma rstrip_take_strip:
  "rstrip (take n (strip s)) = (if length (strip s) > n then rstrip (take n (strip s)) else strip s)"
proof (cases "strip s = []")
  case True
  then show ?thesis by (simp add: rstrip_def)
next
  case False
  then have "rstrip (strip s) = strip s" using strip_ends(2) [OF False] by (intro rstrip_id)
  then show ?thesis by simp
qed

text \<open>The subject line computed from a stripped content with at least one line.\<close>

lemma subject_shape:
  assumes "splitlines (strip raw) = l # ls"
    and "m = (if length (strip l) > 120 then rstrip (take 120 (strip l)) else strip l)"
  shows "m \<noteq> []" "length m \<le> 120" "\<forall>c\<in>set m. \<not> is_linebreak c" "strip m = m"
proof -
  let ?nlb = "\<lambda>c. \<not> is_linebreak c"
  from splitlines_Cons_takeWhile [OF assms(1)]
  have cne: "strip raw \<noteq> []" and l: "l = takeWhile ?nlb (strip raw)" by simp_all
  have h: "\<not> isspace (hd (strip raw))" using strip_ends(1) [OF cne] .
  then have "\<not> is_linebreak (hd (strip raw))" using linebreak_isspace by blast
  with cne have "hd (strip raw) \<in> set l" unfolding l by (cases "strip raw") simp_all
  with h have fne: "strip l \<noteq> []" by (auto simp: strip_eq_Nil_iff)
  note fe = strip_ends [OF fne]
  have lnlb: "\<forall>c\<in>set l. \<not> is_linebreak c" unfolding l by (auto dest: set_takeWhileD)
  have ends: "m \<noteq> [] \<and> \<not> isspace (hd m) \<and> \<not> isspace (last m)"
  proof (cases "length (strip l) > 120")
    case True
    let ?t = "take 120 (strip l)"
    have tne: "?t \<noteq> []" using fne by simp
    have "hd ?t = hd (strip l)" using fne by (cases "strip l") simp_all
    with fe(1) have "\<not> isspace (hd ?t)" by simp
    from hd_rstrip [OF this tne] this last_rstrip [of ?t] True assms(2)
    show ?thesis by simp
  next
    case False
    with assms(2) fne fe show ?thesis by simp
  qed
  then show "m \<noteq> []" by simp
  show "length m \<le> 120"
    using assms(2) length_rstrip [of "take 120 (strip l)"] by (simp split: if_splits)
  have "set m \<subseteq> set (strip l)"
    using assms(2) set_rstrip [of "take 120 (strip l)"] set_take_subset [of 120 "strip l"]
    by (auto split: if_splits)
  with set_strip [of l] lnlb show "\<forall>c\<in>set m. \<not> is_linebreak c" by blast
  from ends strip_sandwich [of "[]" "[]" m] show "strip m = m" by simp
qed

section \<open>Message generator: what a successful call returns\<close>

lemma openai_chat_complete_Inr:
  assumes "fst (openai_chat_complete e mdl msgs t) = Inr content"
  shows "\<exists>raw. content = strip raw"
  using assms
  by (auto simp: openai_chat_complete_def Let_def split: option.splits if_splits prod.splits)

lemma generate_message_Inr:
  assumes "fst (generate_message e diff prov mdl sty) = Inr m"
  shows "\<exists>raw l ls. splitlines (strip raw) = l # ls
           \<and> m = (if length (strip l) > 120 then rstrip (take 120 (strip l)) else strip l)"
proof -
  let ?msgs = "[(py ''system'', system_style e sty), (py ''user'', user_prompt diff)]"
  obtain r evs where oc: "openai_chat_complete e mdl ?msgs 20 = (r, evs)" by (cases "openai_chat_complete e mdl ?msgs 20")
  from assms oc obtain content where r: "r = Inr content"
    by (cases r) (auto simp: generate_message_def Let_def split: if_splits)
  with oc have "fst (openai_chat_complete e mdl ?msgs 20) = Inr content" by simp
  then obtain raw where raw: "content = strip raw" using openai_chat_complete_Inr by blast
  from assms oc r raw show ?thesis
    by (auto simp: generate_message_def Let_def split: if_splits list.splits)
qed

lemma openai_chat_complete_ok:
  assumes "getenv e (py ''OPENAI_API_KEY'') = Some key" "key \<noteq> []"
    and "\<forall>req. post_fn e req = Some (status, text)" "200 \<le> status" "status < 300"
    and "json_content e text = Some raw"
  shows "fst (openai_chat_complete e mdl msgs t) = Inr (strip raw)"
  using assms by (simp add: openai_chat_complete_def Let_def)

lemma generate_message_first_line:
  assumes "getenv e (py ''OPENAI_API_KEY'') = Some key" "key \<noteq> []"
    and "\<forall>req. post_fn e req = Some (status, text)" "200 \<le> status" "status < 300"
    and "json_content e text = Some raw"
    and "splitlines raw = L # rest" and "\<exists>c\<in>set L. \<not> isspace c"
  shows "fst (generate_message e diff (py ''openai'') mdl sty) = Inr (rstrip (take 120 (strip L)))"
proof -
  let ?msgs = "[(py ''system'', system_style e sty), (py ''user'', user_prompt diff)]"
  obtain r evs where oc: "openai_chat_complete e mdl ?msgs 20 = (r, evs)" by (cases "openai_chat_complete e mdl ?msgs 20")
  with openai_chat_complete_ok [OF assms(1-6), of mdl ?msgs 20] have r: "r = Inr (strip raw)" by simp
  obtain l ls where sl: "splitlines (strip raw) = l # ls" and st: "strip l = strip L"
    using first_line_strip [OF assms(7,8)] by blast
  from oc r sl st have "fst (generate_message e diff (py ''openai'') mdl sty)
      = Inr (if length (strip L) > 120 then rstrip (take 120 (strip L)) else strip L)"
    by (simp add: generate_message_def Let_def)
  then show ?thesis using rstrip_take_strip [of 120 L] by simp
qed

lemma rstrip_take_unpadded:
  assumes "L \<noteq> []" "\<not> isspace (hd L)"
  shows "rstrip (take n (strip L)) = rstrip (take n L)"
proof -
  from assms have "\<exists>c\<in>set L. \<not> isspace c" by (auto intro: bexI [of _ "hd L"])
  then have Xne: "strip L \<noteq> []" by (simp add: strip_eq_Nil_iff)
  note fe = strip_ends [OF Xne]
  have "lstrip L = L" using assms by (cases L) (simp_all add: lstrip_def)
  then have "strip L = rstrip L" by (simp add: strip_def)
  then obtain w where dec: "L = strip L @ w" and w: "\<forall>c\<in>set w. isspace c"
    using rstrip_decomp [of L] by auto
  show ?thesis
  proof (cases "n \<le> length (strip L)")
    case True
    then have "take n L = take n (strip L)" by (subst dec) simp
    then show ?thesis by simp
  next
    case False
    then have "take n L = strip L @ take (n - length (strip L)) w" by (subst dec) simp
    moreover have "\<forall>c\<in>set (take (n - length (strip L)) w). isspace c"
      using w by (auto dest: in_set_takeD)
    ultimately have "rstrip (take n L) = strip L"
      using rstrip_sandwich [OF Xne fe(2)] by simp
    moreover have "rstrip (take n (strip L)) = strip L"
      using False rstrip_id [OF Xne fe(2)] by simp
    ultimately show ?thesis by simp
  qed
qed

section \<open>Diff collector: truncation\<close>

lemma truncation_marker_line:
  "py ''... (truncated) ...'' \<noteq> []" "\<forall>c\<in>set (py ''... (truncated) ...''). \<not> is_linebreak c"
  by (simp_all add: py_def is_linebreak_def)

lemma get_staged_diff_truncates:
  assumes "capture_git e [py ''diff'', py ''--cached''] = (0, out, err)"
    and "strip out \<noteq> []" and "int (length (splitlines out)) > n" and "0 \<le> n"
  shows "get_staged_diff e n
           = (Inr (join [10] (take (nat n) (splitlines out) @ [truncation_marker])),
              [CaptureGit [py ''diff'', py ''--cached'']])"
  using assms by (simp add: get_staged_diff_def Let_def slice_to_def)

lemma get_staged_diff_blank:
  assumes "capture_git e [py ''diff'', py ''--cached''] = (code, out, err)"
    and "strip out = []"
  shows "\<exists>r. get_staged_diff e n = (r, [CaptureGit [py ''diff'', py ''--cached'']])
           \<and> (r = Inr [] \<or> (\<exists>x. r = Inl x)) \<and> (code = 0 \<longrightarrow> r = Inr [])"
  using assms by (simp add: get_staged_diff_def Let_def)

lemma splitlines_truncated_join:
  assumes "ls = take n (splitlines out)"
  shows "splitlines (join [10] (ls @ [truncation_marker]))
           = ls @ [[], py ''... (truncated) ...'']"
proof -
  have "\<forall>l\<in>set ls. \<forall>c\<in>set l. \<not> is_linebreak c"
    unfolding assms by (auto dest!: in_set_takeD dest: splitlines_no_linebreak)
  from splitlines_join_marker [OF this truncation_marker_line]
  show ?thesis by (simp add: truncation_marker_def)
qed

lemma splitlines_repeated: "splitlines (concat (replicate n [97, 10])) = replicate n [97]"
proof (induction n)
  case 0
  then show ?case by (simp add: splitlines_Nil)
next
  case (Suc n)
  have "splitlines ([97] @ 10 # concat (replicate n [97, 10]))
          = [97] # splitlines (concat (replicate n [97, 10]))"
    by (rule splitlines_line_LF) (simp add: is_linebreak_def)
  with Suc show ?case by simp
qed

lemma strip_repeated: "0 < n \<Longrightarrow> strip (concat (replicate n [97, 10])) \<noteq> []"
  by (cases n) (auto simp: strip_eq_Nil_iff isspace_def)

section \<open>Diff collector: the claim\<close>

text \<open>
  Claim C2, as amended. For a staged diff whose captured output has 501 lines and is
  not all whitespace, the collector returns the first 500 original lines and the
  marker joined by newlines; since the marker itself starts with a newline, the
  returned text reads as the first 500 original lines, one empty line and the line
  \<open>... (truncated) ...\<close>: 502 lines in total.
\<close>
theorem truncated_diff_lines:
  assumes "capture_git e [py ''diff'', py ''--cached''] = (0, out, err)"
    and "length (splitlines out) = 501" and "strip out \<noteq> []"
  shows "fst (get_staged_diff e 500)
           = Inr (join [10] (take 500 (splitlines out) @ [truncation_marker]))
       \<and> splitlines (join [10] (take 500 (splitlines out) @ [truncation_marker]))
           = take 500 (splitlines out) @ [[], py ''... (truncated) ...'']
       \<and> length (splitlines (join [10] (take 500 (splitlines out) @ [truncation_marker])))
           = 502"
proof -
  from assms(2) have "int (length (splitlines out)) > 500" by simp
  from get_staged_diff_truncates [OF assms(1) assms(3) this]
  have "fst (get_staged_diff e 500)
           = Inr (join [10] (take 500 (splitlines out) @ [truncation_marker]))" by simp
  moreover have sp: "splitlines (join [10] (take 500 (splitlines out) @ [truncation_marker]))
           = take 500 (splitlines out) @ [[], py ''... (truncated) ...'']"
    by (rule splitlines_truncated_join) simp
  moreover have "length (take 500 (splitlines out) @ [[], py ''... (truncated) ...'']) = 502"
    using assms(2) by simp
  ultimately show ?thesis by simp
qed

text \<open>501 lines \<open>a\<close>: 500 of them, an empty line, the marker.\<close>
theorem truncated_diff_lines_witness:
  "length (splitlines (concat (replicate 501 [97, 10]))) = 501
   \<and> splitlines (join [10] (take 500 (splitlines (concat (replicate 501 [97, 10])))
                             @ [truncation_marker]))
       = replicate 500 [97] @ [[], py ''... (truncated) ...'']"
proof -
  let ?out = "concat (replicate 501 [97, 10])"
  have c: "capture_git (example_env ?out []) [py ''diff'', py ''--cached''] = (0, ?out, [])"
    by (simp add: example_env_def)
  have n: "length (splitlines ?out) = 501" by (simp add: splitlines_repeated)
  have s: "strip ?out \<noteq> []" by (rule strip_repeated) simp
  from truncated_diff_lines [OF c n s] n show ?thesis
    by (simp add: splitlines_repeated)
qed

text \<open>
  Claim C2 as stated fails on a captured output of 501 lines \<open>a\<close>: the returned text
  has 502 lines, not 501, because an empty line separates the 500 original lines from
  the marker.
\<close>
theorem truncated_diff_has_502_lines:
  "length (splitlines (concat (replicate 501 [97, 10]))) = 501
   \<and> fst (get_staged_diff (example_env (concat (replicate 501 [97, 10])) []) 500)
       = Inr (join [10] (replicate 500 [97] @ [truncation_marker]))
   \<and> length (splitlines (join [10] (replicate 500 [97] @ [truncation_marker]))) = 502"
proof -
  let ?out = "concat (replicate 501 [97, 10])"
  have c: "capture_git (example_env ?out []) [py ''diff'', py ''--cached''] = (0, ?out, [])"
    by (simp add: example_env_def)
  have n: "length (splitlines ?out) = 501" by (simp add: splitlines_repeated)
  have s: "strip ?out \<noteq> []" by (rule strip_repeated) simp
  have "int (length (splitlines ?out)) > 500" using n by simp
  from get_staged_diff_truncates [OF c s this]
  have g: "fst (get_staged_diff (example_env ?out []) 500)
       = Inr (join [10] (replicate 500 [97] @ [truncation_marker]))"
    by (simp add: splitlines_repeated)
  have "replicate 500 [97] = take 500 (splitlines ?out)" by (simp add: splitlines_repeated)
  from splitlines_truncated_join [OF this]
  have "length (splitlines (join [10] (replicate 500 [97] @ [truncation_marker]))) = 502"
    by simp
  with n g show ?thesis by simp
qed

section \<open>Message generator: the claims\<close>

text \<open>
  Claim C3. Whenever message generation returns a subject, whatever the provider
  sent, the subject is non-empty, at most 120 characters long and contains no newline
  character (indeed no line boundary at all); it is not all whitespace either, so the
  empty-message check of \<open>main\<close> lets it through.
\<close>
theorem generated_subject_invariant:
  assumes "fst (generate_message e diff prov mdl sty) = Inr m"
  shows "m \<noteq> [] \<and> length m \<le> 120 \<and> 10 \<notin> set m
       \<and> (\<forall>c\<in>set m. \<not> is_linebreak c) \<and> strip m \<noteq> []"
proof -
  from generate_message_Inr [OF assms] obtain raw l ls
    where sl: "splitlines (strip raw) = l # ls"
      and m: "m = (if length (strip l) > 120 then rstrip (take 120 (strip l)) else strip l)"
    by blast
  note sh = subject_shape [OF sl m]
  have "is_linebreak 10" by (simp add: is_linebreak_def)
  with sh(3) have "10 \<notin> set m" by blast
  with sh show ?thesis by simp
qed

lemma example_generate:
  assumes "\<forall>c\<in>set l. \<not> is_linebreak c" "b \<noteq> []" "\<forall>c\<in>set b. \<not> is_linebreak c"
    and "\<exists>c\<in>set l. \<not> isspace c"
  shows "fst (generate_message (example_env out (l @ 10 # b)) diff (py ''openai'') mdl sty)
           = Inr (rstrip (take 120 (strip l)))"
proof -
  let ?e = "example_env out (l @ 10 # b)"
  have 1: "getenv ?e (py ''OPENAI_API_KEY'') = Some (py ''sk-test'')" "py ''sk-test'' \<noteq> []"
    by (simp_all add: example_env_def py_def)
  have 2: "\<forall>req. post_fn ?e req = Some (200, l @ 10 # b)" "(200::int) \<le> 200" "(200::int) < 300"
    by (simp_all add: example_env_def)
  have 3: "json_content ?e (l @ 10 # b) = Some (l @ 10 # b)" by (simp add: example_env_def)
  from generate_message_first_line [OF 1 2 3 splitlines_two [OF assms(1-3)] assms(4)]
  show ?thesis .
qed

lemma strip_plain: "s \<noteq> [] \<Longrightarrow> \<not> isspace (hd s) \<Longrightarrow> \<not> isspace (last s) \<Longrightarrow> strip s = s"
  using strip_sandwich [of "[]" "[]" s] by simp

text \<open>A two-line answer of the provider: generation succeeds with its first line.\<close>
theorem generated_subject_invariant_witness:
  "fst (generate_message (example_env [] (py ''feat(api): add retry logic'' @ 10 # py ''Details follow.''))
          (py ''diff --git a/x b/x'') (py ''openai'') (py ''gpt-4o-mini'') (py ''conventional''))
     = Inr (py ''feat(api): add retry logic'')
   \<and> py ''feat(api): add retry logic'' \<noteq> []
   \<and> length (py ''feat(api): add retry logic'') \<le> 120
   \<and> 10 \<notin> set (py ''feat(api): add retry logic'')"
proof -
  let ?l = "py ''feat(api): add retry logic''"
  have s: "strip ?l = ?l" by (rule strip_plain) (simp_all add: py_def isspace_def)
  have r: "rstrip ?l = ?l" by (rule rstrip_id) (simp_all add: py_def isspace_def)
  have "fst (generate_message (example_env [] (?l @ 10 # py ''Details follow.''))
          (py ''diff --git a/x b/x'') (py ''openai'') (py ''gpt-4o-mini'') (py ''conventional''))
     = Inr (rstrip (take 120 (strip ?l)))"
    by (rule example_generate) (simp_all add: py_def is_linebreak_def isspace_def)
  also have "take 120 (strip ?l) = ?l" unfolding s by (simp add: py_def)
  finally have run: "fst (generate_message (example_env [] (?l @ 10 # py ''Details follow.''))
          (py ''diff --git a/x b/x'') (py ''openai'') (py ''gpt-4o-mini'') (py ''conventional''))
     = Inr ?l" by (simp only: r)
  from generated_subject_invariant [OF run] run show ?thesis by simp
qed

text \<open>
  Claim C4, as amended. For every multi-line model response whose first line is 150
  characters long and contains a non-whitespace character, the final message is the
  first 120 characters of that line \<^emph>\<open>after its surrounding whitespace has been
  trimmed\<close>, with trailing whitespace trimmed again. When the line starts with a
  non-whitespace character this is the first 120 characters of the line itself with
  trailing whitespace trimmed, as the claim has it.
\<close>
theorem long_first_line_truncated:
  assumes "getenv e (py ''OPENAI_API_KEY'') = Some key" "key \<noteq> []"
    and "\<forall>req. post_fn e req = Some (status, text)" "200 \<le> status" "status < 300"
    and "json_content e text = Some raw"
    and "splitlines raw = L # rest" and "rest \<noteq> []" and "length L = 150"
    and "\<exists>c\<in>set L. \<not> isspace c"
  shows "fst (generate_message e diff (py ''openai'') mdl sty)
           = Inr (rstrip (take 120 (strip L)))
       \<and> (\<not> isspace (hd L) \<longrightarrow>
            fst (generate_message e diff (py ''openai'') mdl sty) = Inr (rstrip (take 120 L)))"
proof -
  have g: "fst (generate_message e diff (py ''openai'') mdl sty)
           = Inr (rstrip (take 120 (strip L)))"
    by (rule generate_message_first_line [OF assms(1-7) assms(10)])
  have "L \<noteq> []" using assms(9) by auto
  then have "\<not> isspace (hd L) \<longrightarrow> rstrip (take 120 (strip L)) = rstrip (take 120 L)"
    by (auto intro: rstrip_take_unpadded)
  with g show ?thesis by simp
qed

lemma rstrip_letters: "0 < n \<Longrightarrow> rstrip (replicate n 97) = replicate n 97"
  by (rule rstrip_id) (simp_all add: isspace_def)

text \<open>A first line of 150 letters \<open>a\<close> is cut to 120 of them.\<close>
theorem long_first_line_truncated_witness:
  "fst (generate_message (example_env [] (replicate 150 97 @ 10 # py ''body''))
          [] (py ''openai'') (py ''gpt-4o-mini'') (py ''conventional''))
     = Inr (replicate 120 97)"
proof -
  let ?L = "replicate 150 (97::nat)"
  let ?raw = "?L @ 10 # py ''body''"
  let ?e = "example_env [] ?raw"
  have 1: "getenv ?e (py ''OPENAI_API_KEY'') = Some (py ''sk-test'')" "py ''sk-test'' \<noteq> []"
    by (simp_all add: example_env_def py_def)
  have 2: "\<forall>req. post_fn ?e req = Some (200, ?raw)" "(200::int) \<le> 200" "(200::int) < 300"
    by (simp_all add: example_env_def)
  have 3: "json_content ?e ?raw = Some ?raw" by (simp add: example_env_def)
  have 4: "splitlines ?raw = ?L # [py ''body'']"
    by (rule splitlines_two) (simp_all add: py_def is_linebreak_def)
  have 5: "[py ''body''] \<noteq> []" "length ?L = 150" by simp_all
  have 6: "\<exists>c\<in>set ?L. \<not> isspace c" by (simp add: isspace_def)
  have 7: "\<not> isspace (hd ?L)" by (simp add: isspace_def)
  from long_first_line_truncated [OF 1 2 3 4 5 6, of "[]" "py ''gpt-4o-mini''" "py ''conventional''"] 7
  have "fst (generate_message ?e [] (py ''openai'') (py ''gpt-4o-mini'') (py ''conventional''))
     = Inr (rstrip (take 120 ?L))" by blast
  then show ?thesis by (simp add: rstrip_letters)
qed

text \<open>
  Claim C4 as stated fails on a response whose 150-character first line is two spaces
  followed by 148 letters \<open>a\<close>: the final message is 120 letters \<open>a\<close>, whereas the
  first 120 characters of that line, right-trimmed, are two spaces and 118 letters.
\<close>
theorem padded_first_line_differs:
  "splitlines ((32 # 32 # replicate 148 97) @ 10 # py ''body'')
     = [32 # 32 # replicate 148 97, py ''body'']
   \<and> length (32 # 32 # replicate 148 (97::nat)) = 150
   \<and> fst (generate_message (example_env [] ((32 # 32 # replicate 148 97) @ 10 # py ''body''))
            [] (py ''openai'') (py ''gpt-4o-mini'') (py ''conventional''))
       = Inr (replicate 120 97)
   \<and> rstrip (take 120 (32 # 32 # replicate 148 97)) = 32 # 32 # replicate 118 97
   \<and> replicate 120 97 \<noteq> 32 # 32 # replicate 118 (97::nat)"
proof -
  let ?L = "32 # 32 # replicate 148 (97::nat)"
  have sp: "splitlines (?L @ 10 # py ''body'') = [?L, py ''body'']"
    by (rule splitlines_two) (simp_all add: py_def is_linebreak_def)
  have "strip ([32, 32] @ replicate 148 97 @ []) = replicate 148 97"
    by (rule strip_sandwich) (simp_all add: isspace_def)
  then have st: "strip ?L = replicate 148 97" by simp
  have "fst (generate_message (example_env [] (?L @ 10 # py ''body''))
            [] (py ''openai'') (py ''gpt-4o-mini'') (py ''conventional''))
       = Inr (rstrip (take 120 (strip ?L)))"
    by (rule example_generate) (simp_all add: py_def is_linebreak_def isspace_def)
  then have g: "fst (generate_message (example_env [] (?L @ 10 # py ''body''))
            [] (py ''openai'') (py ''gpt-4o-mini'') (py ''conventional''))
       = Inr (replicate 120 97)"
    by (simp add: st rstrip_letters)
  have "rstrip ([32, 32] @ replicate 118 97) = [32, 32] @ replicate 118 97"
    by (rule rstrip_id) (simp_all add: isspace_def)
  then have t: "rstrip (take 120 ?L) = 32 # 32 # replicate 118 97" by simp
  have ne: "replicate 120 97 \<noteq> 32 # 32 # replicate 118 (97::nat)"
  proof
    assume "replicate 120 97 = 32 # 32 # replicate 118 (97::nat)"
    then have "hd (replicate 120 (97::nat)) = hd (32 # 32 # replicate 118 (97::nat))" by simp
    then show False by simp
  qed
  from sp g t ne show ?thesis by simp
qed

section \<open>Entry point: the claim\<close>

lemma extract_blank_commit:
  "extract_commit_args [py ''commit'', py ''-m'', []] = (True, [py ''commit''])"
  by (simp add: extract_commit_args_def token_simps)

text \<open>
  Claim C8. Invoked with \<open>["commit", "-m", ""]\<close> while git's staged diff output is
  empty or all whitespace, the program exits with code 1 and its run contains no
  text-generation call, whatever exit code git reported; when git succeeded, the run is
  exactly the diff capture followed by the "no staged changes" diagnostic.
\<close>
theorem no_staged_changes_exit_1:
  assumes "capture_git e [py ''diff'', py ''--cached''] = (code, out, err)"
    and "strip out = []"
  shows "fst (main e [py ''commit'', py ''-m'', []]) = 1
       \<and> (\<forall>ev\<in>set (snd (main e [py ''commit'', py ''-m'', []])). \<not> is_generation_call ev)
       \<and> (code = 0 \<longrightarrow> snd (main e [py ''commit'', py ''-m'', []])
            = [CaptureGit [py ''diff'', py ''--cached''], PrintErr NoStagedChanges])"
proof -
  have s0: "strip [] = []" by (simp add: strip_eq_Nil_iff)
  from get_staged_diff_blank [OF assms, of 500] obtain r
    where g: "get_staged_diff e 500 = (r, [CaptureGit [py ''diff'', py ''--cached'']])"
      and r: "r = Inr [] \<or> (\<exists>x. r = Inl x)" and c: "code = 0 \<longrightarrow> r = Inr []"
    by blast
  from r show ?thesis
  proof
    assume "r = Inr []"
    with g s0 show ?thesis by (simp add: main_def extract_blank_commit)
  next
    assume "\<exists>x. r = Inl x"
    then obtain x where x: "r = Inl x" by blast
    with c have "code \<noteq> 0" by auto
    with g x show ?thesis by (simp add: main_def extract_blank_commit)
  qed
qed

text \<open>A staged diff of two spaces and a newline.\<close>
theorem no_staged_changes_exit_1_witness:
  "main (example_env [32, 32, 10] []) [py ''commit'', py ''-m'', []]
     = (1, [CaptureGit [py ''diff'', py ''--cached''], PrintErr NoStagedChanges])"
proof -
  have c: "capture_git (example_env [32, 32, 10] []) [py ''diff'', py ''--cached'']
             = (0, [32, 32, 10], [])" by (simp add: example_env_def)
  have s: "strip [32, 32, 10] = []" by (simp add: strip_eq_Nil_iff isspace_def)
  from no_staged_changes_exit_1 [OF c s] show ?thesis
    by (cases "main (example_env [32, 32, 10] []) [py ''commit'', py ''-m'', []]") simp
qed

end
